theory Spec2Isabelle
  imports Complex_Main
begin

section \<open>The duct sizing engine of DuctMaster Pro (src/app.jsx)\<close>

text \<open>
  The JavaScript numbers of the source are modelled as real numbers: \<open>Math.pow\<close> is
  the real power \<open>powr\<close> (every base the guarded code reaches is positive),
  \<open>Math.sqrt\<close> is \<open>sqrt\<close>, \<open>Math.PI\<close> is \<open>pi\<close>, \<open>Math.abs\<close> is \<open>abs\<close>.
  Rounding, overflow and NaN of IEEE doubles have no counterpart in this model.
\<close>

subsection \<open>Conversion constants (lines 19-22)\<close>

definition CMH_TO_CFM :: real where
  "CMH_TO_CFM = 0.588578"

definition PA_M_TO_IN_100FT :: real where
  "PA_M_TO_IN_100FT = 0.1224"

definition M_S_TO_FPM :: real where
  "M_S_TO_FPM = 196.85"

definition MM_TO_IN :: real where
  "MM_TO_IN = 0.0393701"

subsection \<open>HVAC math functions (lines 25-62)\<close>

definition Math_pow :: "real \<Rightarrow> real \<Rightarrow> real" where
  "Math_pow b e = b powr e"

definition solveDiaByFriction :: "real \<Rightarrow> real \<Rightarrow> real" where
  "solveDiaByFriction cfm friction =
     (if cfm \<le> 0 \<or> friction \<le> 0 then 0
      else Math_pow ((0.109136 * Math_pow cfm 1.9) / friction) (1 / 5.02))"

definition solveDiaByVelocity :: "real \<Rightarrow> real \<Rightarrow> real" where
  "solveDiaByVelocity cfm fpm =
     (if cfm \<le> 0 \<or> fpm \<le> 0 then 0
      else (let areaSqFt = cfm / fpm in 2 * sqrt (areaSqFt / pi) * 12))"

definition calcVelocity :: "real \<Rightarrow> real \<Rightarrow> real" where
  "calcVelocity cfm diaInches =
     (if diaInches \<le> 0 then 0
      else (let areaSqFt = pi * Math_pow (diaInches / 24) 2 in cfm / areaSqFt))"

definition calcFriction :: "real \<Rightarrow> real \<Rightarrow> real" where
  "calcFriction cfm diaInches =
     (if diaInches \<le> 0 \<or> cfm \<le> 0 then 0
      else (0.109136 * Math_pow cfm 1.9) / Math_pow diaInches 5.02)"

text \<open>
  The loop \<open>for (let x = 2; x <= 150; x += 0.5)\<close> of lines 51-60: the loop variable and
  the two variables the body updates are the last three arguments.
\<close>

function scan_loop :: "real \<Rightarrow> real \<Rightarrow> real \<Rightarrow> real \<Rightarrow> real \<Rightarrow> real" where
  "scan_loop targetDia knownSide x bestSide minDiff =
     (if x \<le> 150 then
        (let top = Math_pow (knownSide * x) 0.625;
             bot = Math_pow (knownSide + x) 0.25;
             calcDe = 1.30 * (top / bot);
             diff = \<bar>calcDe - targetDia\<bar>
         in if diff < minDiff
            then scan_loop targetDia knownSide (x + 0.5) x diff
            else scan_loop targetDia knownSide (x + 0.5) bestSide minDiff)
      else bestSide)"
  by pat_completeness auto
termination
proof (relation "measure (\<lambda>(t, k, x, b, m). nat \<lceil>(150 - x) * 2 + 1\<rceil>)", goal_cases)
  case 1
  show ?case by simp
next
  case (2 targetDia knownSide x bestSide minDiff top bot calcDe diff)
  have e: "(150 - (x + 0.5)) * 2 + 1 = ((150 - x) * 2 + 1) - 1"
    by simp
  have "\<lceil>(150 - (x + 0.5)) * 2 + 1\<rceil> = \<lceil>(150 - x) * 2 + 1\<rceil> - 1"
    unfolding e by (rule ceiling_diff_one)
  moreover have "0 < \<lceil>(150 - x) * 2 + 1\<rceil>"
    using 2(1) by (simp add: zero_less_ceiling)
  ultimately have "nat \<lceil>(150 - (x + 0.5)) * 2 + 1\<rceil> < nat \<lceil>(150 - x) * 2 + 1\<rceil>"
    by linarith
  then show ?case by simp
next
  case (3 targetDia knownSide x bestSide minDiff top bot calcDe diff)
  have e: "(150 - (x + 0.5)) * 2 + 1 = ((150 - x) * 2 + 1) - 1"
    by simp
  have "\<lceil>(150 - (x + 0.5)) * 2 + 1\<rceil> = \<lceil>(150 - x) * 2 + 1\<rceil> - 1"
    unfolding e by (rule ceiling_diff_one)
  moreover have "0 < \<lceil>(150 - x) * 2 + 1\<rceil>"
    using 3(1) by (simp add: zero_less_ceiling)
  ultimately have "nat \<lceil>(150 - (x + 0.5)) * 2 + 1\<rceil> < nat \<lceil>(150 - x) * 2 + 1\<rceil>"
    by linarith
  then show ?case by simp
qed

declare scan_loop.simps [simp del]

definition solveRectDimension :: "real \<Rightarrow> real \<Rightarrow> real" where
  "solveRectDimension targetDia knownSide =
     (if targetDia \<le> 0 \<or> knownSide \<le> 0 then 0
      else scan_loop targetDia knownSide 2 0 1000)"

subsection \<open>Component state (lines 66-79)\<close>

datatype unit_system = IP | SI

datatype sizing_mode = FrictionMode | VelocityMode

record app_state =
  units :: unit_system
  mode :: sizing_mode
  airflowIP :: real
  frictionIP :: real
  velocityIP :: real
  rectSideIP :: real
  resultDia :: real
  resultVelocity :: real
  resultFriction :: real
  resultRectSide :: real

definition initial_state :: app_state where
  "initial_state =
     \<lparr>units = IP, mode = FrictionMode, airflowIP = 1000, frictionIP = 0.1,
      velocityIP = 1200, rectSideIP = 12, resultDia = 0, resultVelocity = 0,
      resultFriction = 0, resultRectSide = 0\<rparr>"

subsection \<open>Input handlers (lines 88-110)\<close>

text \<open>Each handler receives the number typed in the current display unit.\<close>

definition handleAirflowChange :: "app_state \<Rightarrow> real \<Rightarrow> app_state" where
  "handleAirflowChange s num =
     (if units s = IP then s\<lparr>airflowIP := num\<rparr> else s\<lparr>airflowIP := num * CMH_TO_CFM\<rparr>)"

definition handleFrictionChange :: "app_state \<Rightarrow> real \<Rightarrow> app_state" where
  "handleFrictionChange s num =
     (if units s = IP then s\<lparr>frictionIP := num\<rparr>
      else s\<lparr>frictionIP := num * PA_M_TO_IN_100FT\<rparr>)"

definition handleVelocityChange :: "app_state \<Rightarrow> real \<Rightarrow> app_state" where
  "handleVelocityChange s num =
     (if units s = IP then s\<lparr>velocityIP := num\<rparr> else s\<lparr>velocityIP := num * M_S_TO_FPM\<rparr>)"

definition handleRectSideChange :: "app_state \<Rightarrow> real \<Rightarrow> app_state" where
  "handleRectSideChange s num =
     (if units s = IP then s\<lparr>rectSideIP := num\<rparr> else s\<lparr>rectSideIP := num * MM_TO_IN\<rparr>)"

subsection \<open>The calculation effect (lines 182-205)\<close>

text \<open>
  The effect assigns the local \<open>d\<close> in one of two branches and then sets the rectangular
  side; \<open>effect_diameter\<close> is the first step with the value of \<open>d\<close> returned beside
  the state.
\<close>

definition effect_diameter :: "app_state \<Rightarrow> real \<times> app_state" where
  "effect_diameter s =
     (if mode s = FrictionMode then
        (let d = solveDiaByFriction (airflowIP s) (frictionIP s)
         in (d, s\<lparr>resultDia := d,
                   resultVelocity := calcVelocity (airflowIP s) d,
                   resultFriction := frictionIP s\<rparr>))
      else
        (let d = solveDiaByVelocity (airflowIP s) (velocityIP s)
         in (d, s\<lparr>resultDia := d,
                   resultVelocity := velocityIP s,
                   resultFriction := calcFriction (airflowIP s) d\<rparr>)))"

definition calculation_effect :: "app_state \<Rightarrow> app_state" where
  "calculation_effect s =
     (case effect_diameter s of (d, s1) \<Rightarrow>
        if d > 0 \<and> rectSideIP s > 0
        then s1\<lparr>resultRectSide := solveRectDimension d (rectSideIP s)\<rparr>
        else s1\<lparr>resultRectSide := 0\<rparr>)"

subsection \<open>Display values (lines 214-222)\<close>

definition displayAirflow :: "app_state \<Rightarrow> real" where
  "displayAirflow s = (if units s = IP then airflowIP s else airflowIP s / CMH_TO_CFM)"

definition displayFriction :: "app_state \<Rightarrow> real" where
  "displayFriction s = (if units s = IP then frictionIP s else frictionIP s / PA_M_TO_IN_100FT)"

definition displayVelocity :: "app_state \<Rightarrow> real" where
  "displayVelocity s = (if units s = IP then velocityIP s else velocityIP s / M_S_TO_FPM)"

definition displayRectSide :: "app_state \<Rightarrow> real" where
  "displayRectSide s = (if units s = IP then rectSideIP s else rectSideIP s / MM_TO_IN)"

definition showDia :: "app_state \<Rightarrow> real" where
  "showDia s = (if units s = IP then resultDia s else resultDia s / MM_TO_IN)"

definition showVel :: "app_state \<Rightarrow> real" where
  "showVel s = (if units s = IP then resultVelocity s else resultVelocity s / M_S_TO_FPM)"

definition showFric :: "app_state \<Rightarrow> real" where
  "showFric s = (if units s = IP then resultFriction s else resultFriction s / PA_M_TO_IN_100FT)"

definition showRectRes :: "app_state \<Rightarrow> real" where
  "showRectRes s = (if units s = IP then resultRectSide s else resultRectSide s / MM_TO_IN)"

subsection \<open>Aspect ratio warning (lines 225-228)\<close>

text \<open>\<open>v || 1\<close> on a number: 0 is the falsy value and is replaced by 1.\<close>

definition or_one :: "real \<Rightarrow> real" where
  "or_one v = (if v = 0 then 1 else v)"

text \<open>
  The ratio and the warning as functions of the two displayed sides
  (\<open>displayRectSide\<close> and \<open>showRectRes\<close>), and on a state.
\<close>

definition ratioVal :: "real \<Rightarrow> real \<Rightarrow> real" where
  "ratioVal sideA sideB =
     (let safeDisplayRectSide = or_one sideA;
          safeShowRectRes = or_one sideB
      in max safeDisplayRectSide safeShowRectRes / min safeDisplayRectSide safeShowRectRes)"

definition isRatioWarning :: "real \<Rightarrow> real \<Rightarrow> bool" where
  "isRatioWarning sideA sideB = (ratioVal sideA sideB > 4)"

definition state_ratioVal :: "app_state \<Rightarrow> real" where
  "state_ratioVal s = ratioVal (displayRectSide s) (showRectRes s)"

definition state_isRatioWarning :: "app_state \<Rightarrow> bool" where
  "state_isRatioWarning s = isRatioWarning (displayRectSide s) (showRectRes s)"

subsection \<open>Notions used to state the properties of the scan\<close>

text \<open>The equivalent diameter and the difference computed in the body of the scan.\<close>

definition calcDe :: "real \<Rightarrow> real \<Rightarrow> real" where
  "calcDe knownSide x =
     1.30 * (Math_pow (knownSide * x) 0.625 / Math_pow (knownSide + x) 0.25)"

definition scan_diff :: "real \<Rightarrow> real \<Rightarrow> real \<Rightarrow> real" where
  "scan_diff targetDia knownSide x = \<bar>calcDe knownSide x - targetDia\<bar>"

text \<open>The scan points 2, 2.5, 3, ..., 150 in the order the loop visits them.\<close>

definition scan_points :: "real list" where
  "scan_points = map (\<lambda>i. 2 + real i / 2) [0..<297]"

text \<open>One iteration of the loop body on the pair (bestSide, minDiff).\<close>

definition scan_step :: "real \<Rightarrow> real \<Rightarrow> real \<Rightarrow> real \<times> real \<Rightarrow> real \<times> real" where
  "scan_step targetDia knownSide x acc =
     (if scan_diff targetDia knownSide x < snd acc
      then (x, scan_diff targetDia knownSide x) else acc)"

text \<open>
  \<open>best_match t k x\<close>: \<open>x\<close> is a scan point whose difference from the target is minimal
  among the scan points.
\<close>

definition best_match :: "real \<Rightarrow> real \<Rightarrow> real \<Rightarrow> bool" where
  "best_match targetDia knownSide x \<longleftrightarrow>
     x \<in> set scan_points
     \<and> (\<forall>y\<in>set scan_points. scan_diff targetDia knownSide x \<le> scan_diff targetDia knownSide y)"

text \<open>
  A target diameter halfway between the equivalent diameters of the first two scan points,
  where these two points are equally close to the target.
\<close>

definition tie_target :: "real \<Rightarrow> real" where
  "tie_target knownSide = (calcDe knownSide 2 + calcDe knownSide 2.5) / 2"

section \<open>The diameter solvers and their inverse formulas\<close>

lemma Math_pow_pos: "0 < b \<Longrightarrow> 0 < Math_pow b e"
  by (simp add: Math_pow_def)

lemma Math_pow_inverse: "0 < b \<Longrightarrow> e \<noteq> 0 \<Longrightarrow> Math_pow (Math_pow b (1 / e)) e = b"
  by (simp add: Math_pow_def powr_powr)

lemma solveDiaByFriction_pos:
  assumes "0 < cfm" and "0 < friction"
  shows "0 < solveDiaByFriction cfm friction"
  using assms by (simp add: solveDiaByFriction_def Math_pow_pos)

text \<open>
  In exact real arithmetic the two friction formulas are inverse to each other: for
  positive airflow and friction rate, \<open>calcFriction\<close> at the diameter that
  \<open>solveDiaByFriction\<close> returns gives the friction rate back. This says nothing about the
  rounding, overflow or underflow of the double-precision computation.
\<close>

lemma friction_round_trip_real:
  assumes "0 < cfm" and "0 < frictionRate"
  shows "calcFriction cfm (solveDiaByFriction cfm frictionRate) = frictionRate"
proof -
  define N where "N = 0.109136 * Math_pow cfm 1.9"
  define D where "D = solveDiaByFriction cfm frictionRate"
  have N: "0 < N" using assms by (simp add: N_def Math_pow_pos)
  then have B: "0 < N / frictionRate" using assms by simp
  have D: "D = Math_pow (N / frictionRate) (1 / 5.02)"
    using assms by (simp add: D_def N_def solveDiaByFriction_def)
  have Dpos: "0 < D" unfolding D using B by (rule Math_pow_pos)
  have "Math_pow D 5.02 = N / frictionRate"
    unfolding D using B by (rule Math_pow_inverse) simp
  then have "calcFriction cfm D = N / (N / frictionRate)"
    using Dpos assms by (simp add: calcFriction_def N_def)
  also have "\<dots> = frictionRate" using N by simp
  finally have "calcFriction cfm D = frictionRate" .
  then show ?thesis by (simp add: D_def)
qed

text \<open>
  Likewise in exact real arithmetic, for positive airflow and velocity, \<open>calcVelocity\<close> at
  the diameter that \<open>solveDiaByVelocity\<close> returns gives the velocity back.
\<close>

lemma velocity_round_trip_real:
  assumes "0 < cfm" and "0 < velocity"
  shows "calcVelocity cfm (solveDiaByVelocity cfm velocity) = velocity"
proof -
  define A where "A = cfm / velocity"
  define D where "D = solveDiaByVelocity cfm velocity"
  have A: "0 < A" using assms by (simp add: A_def)
  have D: "D = 2 * sqrt (A / pi) * 12"
    using assms by (simp add: D_def A_def solveDiaByVelocity_def)
  have Dpos: "0 < D" unfolding D using A by simp
  have "D / 24 = sqrt (A / pi)" unfolding D by simp
  then have "Math_pow (D / 24) 2 = A / pi"
    using A by (simp add: Math_pow_def)
  then have "calcVelocity cfm D = cfm / (pi * (A / pi))"
    using Dpos by (simp add: calcVelocity_def)
  also have "\<dots> = velocity" using assms by (simp add: A_def)
  finally have "calcVelocity cfm D = velocity" .
  then show ?thesis by (simp add: D_def)
qed

section \<open>Zero guards\<close>

text \<open>
  Four of the five functions return 0 as soon as one argument is not positive;
  \<open>calcVelocity\<close> tests its diameter only.
\<close>

lemma guarded_zero:
  "cfm \<le> 0 \<or> friction \<le> 0 \<Longrightarrow> solveDiaByFriction cfm friction = 0"
  "cfm \<le> 0 \<or> fpm \<le> 0 \<Longrightarrow> solveDiaByVelocity cfm fpm = 0"
  "diaInches \<le> 0 \<or> cfm \<le> 0 \<Longrightarrow> calcFriction cfm diaInches = 0"
  "targetDia \<le> 0 \<or> knownSide \<le> 0 \<Longrightarrow> solveRectDimension targetDia knownSide = 0"
  "diaInches \<le> 0 \<Longrightarrow> calcVelocity cfm diaInches = 0"
  by (auto simp add: solveDiaByFriction_def solveDiaByVelocity_def calcFriction_def
      solveRectDimension_def calcVelocity_def)

text \<open>
  C3 says that every solver function returns exactly 0 when any of its arguments is not
  positive. \<open>calcVelocity\<close> tests its diameter only: called with airflow -100 and diameter
  12 it returns \<open>-400 / pi\<close>, a negative number.
\<close>

theorem calcVelocity_negative_airflow:
  "calcVelocity (-100) 12 = - 400 / pi \<and> calcVelocity (-100) 12 < 0"
  by (simp add: calcVelocity_def Math_pow_def power2_eq_square)

lemma calcVelocity_guarded_airflow:
  assumes "cfm \<le> 0 \<or> friction \<le> 0"
  shows "calcVelocity cfm (solveDiaByFriction cfm friction) = 0"
  using assms by (simp add: solveDiaByFriction_def calcVelocity_def)

text \<open>
  C3 as amended. \<open>solveDiaByFriction\<close>, \<open>solveDiaByVelocity\<close>, \<open>calcFriction\<close> and
  \<open>solveRectDimension\<close> return exactly 0 when any of their arguments is not positive;
  \<open>calcVelocity\<close> returns exactly 0 when its diameter is not positive. The calculation
  effect calls \<open>calcVelocity\<close> only with the diameter that \<open>solveDiaByFriction\<close> returned
  for the same airflow, and there the velocity is exactly 0 when the airflow or the
  friction rate is not positive; so every result the effect computes from a non-positive
  airflow or target is exactly 0.
\<close>

theorem zero_guards:
  "(cfm \<le> 0 \<or> friction \<le> 0 \<longrightarrow> solveDiaByFriction cfm friction = 0)
   \<and> (cfm \<le> 0 \<or> fpm \<le> 0 \<longrightarrow> solveDiaByVelocity cfm fpm = 0)
   \<and> (diaInches \<le> 0 \<or> cfm \<le> 0 \<longrightarrow> calcFriction cfm diaInches = 0)
   \<and> (targetDia \<le> 0 \<or> knownSide \<le> 0 \<longrightarrow> solveRectDimension targetDia knownSide = 0)
   \<and> (diaInches \<le> 0 \<longrightarrow> calcVelocity cfm diaInches = 0)
   \<and> (cfm \<le> 0 \<or> friction \<le> 0 \<longrightarrow>
        calcVelocity cfm (solveDiaByFriction cfm friction) = 0)
   \<and> (mode s = FrictionMode \<and> (airflowIP s \<le> 0 \<or> frictionIP s \<le> 0) \<longrightarrow>
        resultDia (calculation_effect s) = 0
        \<and> resultVelocity (calculation_effect s) = 0
        \<and> resultRectSide (calculation_effect s) = 0)
   \<and> (mode s = VelocityMode \<and> (airflowIP s \<le> 0 \<or> velocityIP s \<le> 0) \<longrightarrow>
        resultDia (calculation_effect s) = 0
        \<and> resultFriction (calculation_effect s) = 0
        \<and> resultRectSide (calculation_effect s) = 0)"
proof -
  have pipeF: "resultDia (calculation_effect s) = 0
        \<and> resultVelocity (calculation_effect s) = 0
        \<and> resultRectSide (calculation_effect s) = 0"
    if "mode s = FrictionMode" and "airflowIP s \<le> 0 \<or> frictionIP s \<le> 0"
  proof -
    have d: "solveDiaByFriction (airflowIP s) (frictionIP s) = 0"
      using that(2) by (rule guarded_zero(1))
    show ?thesis
      using that(1) d
      by (simp add: calculation_effect_def effect_diameter_def Let_def calcVelocity_def)
  qed
  have pipeV: "resultDia (calculation_effect s) = 0
        \<and> resultFriction (calculation_effect s) = 0
        \<and> resultRectSide (calculation_effect s) = 0"
    if "mode s = VelocityMode" and "airflowIP s \<le> 0 \<or> velocityIP s \<le> 0"
  proof -
    have d: "solveDiaByVelocity (airflowIP s) (velocityIP s) = 0"
      using that(2) by (rule guarded_zero(2))
    show ?thesis
      using that(1) d
      by (simp add: calculation_effect_def effect_diameter_def Let_def calcFriction_def)
  qed
  have "cfm \<le> 0 \<or> friction \<le> 0 \<longrightarrow> solveDiaByFriction cfm friction = 0"
    by (simp add: solveDiaByFriction_def)
  moreover have "cfm \<le> 0 \<or> fpm \<le> 0 \<longrightarrow> solveDiaByVelocity cfm fpm = 0"
    by (simp add: solveDiaByVelocity_def)
  moreover have "diaInches \<le> 0 \<or> cfm \<le> 0 \<longrightarrow> calcFriction cfm diaInches = 0"
    by (simp add: calcFriction_def)
  moreover have "targetDia \<le> 0 \<or> knownSide \<le> 0 \<longrightarrow>
      solveRectDimension targetDia knownSide = 0"
    by (simp add: solveRectDimension_def)
  moreover have "diaInches \<le> 0 \<longrightarrow> calcVelocity cfm diaInches = 0"
    by (simp add: calcVelocity_def)
  moreover have "cfm \<le> 0 \<or> friction \<le> 0 \<longrightarrow>
      calcVelocity cfm (solveDiaByFriction cfm friction) = 0"
    using calcVelocity_guarded_airflow [of cfm friction] by blast
  ultimately show ?thesis
    using pipeF pipeV by blast
qed

theorem zero_guards_witness:
  "solveDiaByFriction (-100) 0.1 = 0
   \<and> solveDiaByVelocity 1000 0 = 0
   \<and> calcFriction 0 12 = 0
   \<and> solveRectDimension 13.9 (-12) = 0
   \<and> calcVelocity 1000 0 = 0
   \<and> calcVelocity (-100) (solveDiaByFriction (-100) 0.1) = 0
   \<and> resultVelocity (calculation_effect (initial_state\<lparr>airflowIP := -100\<rparr>)) = 0
   \<and> resultFriction (calculation_effect
         (initial_state\<lparr>mode := VelocityMode, airflowIP := -100\<rparr>)) = 0"
  using
    zero_guards [where cfm = "-100" and friction = "0.1" and diaInches = 0
      and s = "initial_state\<lparr>airflowIP := -100\<rparr>"]
    zero_guards [where cfm = 1000 and fpm = 0 and diaInches = 0
      and s = "initial_state\<lparr>mode := VelocityMode, airflowIP := -100\<rparr>"]
    zero_guards [where cfm = 0 and diaInches = 12 and targetDia = "13.9"
      and knownSide = "-12"]
  by (simp add: initial_state_def)

section \<open>Aspect ratio\<close>

lemma or_one_pos: "0 \<le> v \<Longrightarrow> 0 < or_one v"
  by (simp add: or_one_def)

text \<open>
  C5. For sides \<open>a, b \<ge> 0\<close> the ratio is the larger over the smaller side, a side equal
  to 0 being replaced by 1 first; the ratio is at least 1; and no warning is raised (the
  duct is compliant) exactly when the ratio is at most 4: ratio 4 is compliant, ratio 5 is
  not.
\<close>

theorem evaluateAspect_contract:
  assumes "0 \<le> a" and "0 \<le> b"
  shows "ratioVal a b =
           max (if a = 0 then 1 else a) (if b = 0 then 1 else b) /
           min (if a = 0 then 1 else a) (if b = 0 then 1 else b)
         \<and> 1 \<le> ratioVal a b
         \<and> (\<not> isRatioWarning a b \<longleftrightarrow> ratioVal a b \<le> 4)
         \<and> ratioVal 4 16 = 4 \<and> \<not> isRatioWarning 4 16
         \<and> ratioVal 4 20 = 5 \<and> isRatioWarning 4 20"
proof -
  have pa: "0 < or_one a" and pb: "0 < or_one b"
    using assms by (simp_all add: or_one_pos)
  have "min (or_one a) (or_one b) \<le> max (or_one a) (or_one b)" by simp
  moreover have "0 < min (or_one a) (or_one b)" using pa pb by simp
  ultimately have "1 \<le> max (or_one a) (or_one b) / min (or_one a) (or_one b)"
    by (simp add: le_divide_eq)
  then have "1 \<le> ratioVal a b" by (simp add: ratioVal_def Let_def)
  moreover have "ratioVal a b =
           max (if a = 0 then 1 else a) (if b = 0 then 1 else b) /
           min (if a = 0 then 1 else a) (if b = 0 then 1 else b)"
    by (simp add: ratioVal_def or_one_def Let_def)
  moreover have "\<not> isRatioWarning a b \<longleftrightarrow> ratioVal a b \<le> 4"
    by (simp add: isRatioWarning_def not_less)
  moreover have "ratioVal 4 16 = 4" "ratioVal 4 20 = 5"
    by (simp_all add: ratioVal_def or_one_def Let_def)
  moreover have "\<not> isRatioWarning 4 16" "isRatioWarning 4 20"
    by (simp_all add: isRatioWarning_def ratioVal_def or_one_def Let_def)
  ultimately show ?thesis by blast
qed

theorem evaluateAspect_contract_witness:
  "(0::real) \<le> 0 \<and> (0::real) \<le> 12 \<and> ratioVal 0 12 = 12 \<and> 1 \<le> ratioVal 0 12
   \<and> isRatioWarning 0 12"
  using evaluateAspect_contract [of 0 12] by (simp add: isRatioWarning_def)

text \<open>The ratio and the warning do not depend on the order of the two sides.\<close>

theorem aspect_symmetry:
  "ratioVal a b = ratioVal b a \<and> isRatioWarning a b = isRatioWarning b a"
  by (simp add: isRatioWarning_def ratioVal_def Let_def max.commute min.commute)

section \<open>Unit conversion\<close>

text \<open>
  C7. For each of the four quantities there is one fixed constant such that the SI value
  shown is the stored IP value multiplied by the constant, and a value entered in SI units
  is divided by the same constant (multiplied by its reciprocal) to give the stored IP
  value. The four constants are the reciprocals of \<open>CMH_TO_CFM\<close>, \<open>PA_M_TO_IN_100FT\<close>,
  \<open>M_S_TO_FPM\<close> and \<open>MM_TO_IN\<close>, by which the source divides on display and multiplies
  on input; showing what was entered gives the entered value back.
\<close>

theorem conversion_factor_direction:
  "\<exists>ca cf cv cl.
     ca = 1 / CMH_TO_CFM \<and> cf = 1 / PA_M_TO_IN_100FT
     \<and> cv = 1 / M_S_TO_FPM \<and> cl = 1 / MM_TO_IN
     \<and> (\<forall>s v. units s = SI \<longrightarrow>
           displayAirflow s = airflowIP s * ca
         \<and> displayFriction s = frictionIP s * cf
         \<and> displayVelocity s = velocityIP s * cv
         \<and> displayRectSide s = rectSideIP s * cl
         \<and> showDia s = resultDia s * cl
         \<and> showVel s = resultVelocity s * cv
         \<and> showFric s = resultFriction s * cf
         \<and> showRectRes s = resultRectSide s * cl
         \<and> airflowIP (handleAirflowChange s v) = v / ca
         \<and> frictionIP (handleFrictionChange s v) = v / cf
         \<and> velocityIP (handleVelocityChange s v) = v / cv
         \<and> rectSideIP (handleRectSideChange s v) = v / cl
         \<and> airflowIP (handleAirflowChange s v) = v * (1 / ca)
         \<and> frictionIP (handleFrictionChange s v) = v * (1 / cf)
         \<and> velocityIP (handleVelocityChange s v) = v * (1 / cv)
         \<and> rectSideIP (handleRectSideChange s v) = v * (1 / cl)
         \<and> displayAirflow (handleAirflowChange s v) = v
         \<and> displayFriction (handleFrictionChange s v) = v
         \<and> displayVelocity (handleVelocityChange s v) = v
         \<and> displayRectSide (handleRectSideChange s v) = v)"
proof (intro exI conjI allI impI)
  show "1 / CMH_TO_CFM = 1 / CMH_TO_CFM" "1 / PA_M_TO_IN_100FT = 1 / PA_M_TO_IN_100FT"
    "1 / M_S_TO_FPM = 1 / M_S_TO_FPM" "1 / MM_TO_IN = 1 / MM_TO_IN"
    by (rule refl)+
qed (simp_all add: handleAirflowChange_def handleFrictionChange_def handleVelocityChange_def
      handleRectSideChange_def displayAirflow_def displayFriction_def displayVelocity_def
      displayRectSide_def showDia_def showVel_def showFric_def showRectRes_def
      CMH_TO_CFM_def PA_M_TO_IN_100FT_def M_S_TO_FPM_def MM_TO_IN_def)

theorem conversion_factor_direction_witness:
  "units (initial_state\<lparr>units := SI\<rparr>) = SI
   \<and> displayAirflow (initial_state\<lparr>units := SI\<rparr>) = 1000 * (1 / CMH_TO_CFM)
   \<and> airflowIP (handleAirflowChange (initial_state\<lparr>units := SI\<rparr>) 1700)
       = 1700 / (1 / CMH_TO_CFM)
   \<and> displayRectSide (initial_state\<lparr>units := SI\<rparr>) = 12 * (1 / MM_TO_IN)
   \<and> displayRectSide (handleRectSideChange (initial_state\<lparr>units := SI\<rparr>) 300) = 300"
proof -
  obtain ca cf cv cl :: real where c: "ca = 1 / CMH_TO_CFM" "cl = 1 / MM_TO_IN"
    and all: "\<And>s v. units s = SI \<Longrightarrow>
           displayAirflow s = airflowIP s * ca
         \<and> displayRectSide s = rectSideIP s * cl
         \<and> airflowIP (handleAirflowChange s v) = v / ca
         \<and> displayRectSide (handleRectSideChange s v) = v"
    using conversion_factor_direction by blast
  have u: "units (initial_state\<lparr>units := SI\<rparr>) = SI" by simp
  show ?thesis
    using all [OF u, of 1700] all [OF u, of 300] u
    unfolding c by (simp add: initial_state_def)
qed

section \<open>The calculation effect\<close>

lemma effect_diameter_resultDia:
  "resultDia (snd (effect_diameter s)) = fst (effect_diameter s)"
  by (simp add: effect_diameter_def Let_def)

lemma calculation_effect_resultDia:
  "resultDia (calculation_effect s) = fst (effect_diameter s)"
  using effect_diameter_resultDia [of s]
  by (auto simp add: calculation_effect_def split: prod.splits)

text \<open>
  C8. In the calculation effect the required rectangular side is the result of
  \<open>solveRectDimension\<close> on the solved diameter and the constraint side when both are
  positive, and exactly 0 in every other case.
\<close>

theorem requiredSide_guard:
  "(resultDia (calculation_effect s) > 0 \<and> rectSideIP s > 0 \<longrightarrow>
      resultRectSide (calculation_effect s) =
        solveRectDimension (resultDia (calculation_effect s)) (rectSideIP s))
   \<and> (\<not> (resultDia (calculation_effect s) > 0 \<and> rectSideIP s > 0) \<longrightarrow>
      resultRectSide (calculation_effect s) = 0)"
  unfolding calculation_effect_resultDia
  by (simp add: calculation_effect_def effect_diameter_def Let_def split: prod.splits)

theorem requiredSide_guard_witness:
  "resultDia (calculation_effect initial_state) > 0 \<and> rectSideIP initial_state > 0
   \<and> resultRectSide (calculation_effect initial_state) =
       solveRectDimension (solveDiaByFriction 1000 0.1) 12
   \<and> \<not> (resultDia (calculation_effect (initial_state\<lparr>airflowIP := 0\<rparr>)) > 0
         \<and> rectSideIP (initial_state\<lparr>airflowIP := 0\<rparr>) > 0)
   \<and> resultRectSide (calculation_effect (initial_state\<lparr>airflowIP := 0\<rparr>)) = 0"
proof -
  have d: "resultDia (calculation_effect initial_state) = solveDiaByFriction 1000 0.1"
    by (simp add: calculation_effect_resultDia effect_diameter_def initial_state_def Let_def)
  have p: "0 < solveDiaByFriction 1000 0.1"
    by (rule solveDiaByFriction_pos) simp_all
  have r: "rectSideIP initial_state = 12"
    by (simp add: initial_state_def)
  have z: "resultDia (calculation_effect (initial_state\<lparr>airflowIP := 0\<rparr>)) = 0"
    by (simp add: calculation_effect_resultDia effect_diameter_def initial_state_def
        solveDiaByFriction_def Let_def)
  show ?thesis
    using requiredSide_guard [of initial_state]
      requiredSide_guard [of "initial_state\<lparr>airflowIP := 0\<rparr>"] p
    unfolding d r z by simp
qed

section \<open>The rectangular scan\<close>

subsection \<open>The loop as a fold over the scan points\<close>


lemma scan_loop_unfold:
  "scan_loop t k x b m =
     (if x \<le> 150 then
        (if scan_diff t k x < m
         then scan_loop t k (x + 0.5) x (scan_diff t k x)
         else scan_loop t k (x + 0.5) b m)
      else b)"
  by (subst scan_loop.simps) (simp add: Let_def scan_diff_def calcDe_def)

lemma scan_loop_step:
  "x \<le> 150 \<Longrightarrow>
   scan_loop t k x b m =
     scan_loop t k (x + 0.5) (fst (scan_step t k x (b, m))) (snd (scan_step t k x (b, m)))"
  by (subst scan_loop_unfold) (simp add: scan_step_def)

lemma scan_loop_exit: "150 < x \<Longrightarrow> scan_loop t k x b m = b"
  by (subst scan_loop_unfold) simp

lemma scan_loop_fold_aux:
  "n + d = 297 \<Longrightarrow>
   scan_loop t k (2 + real n / 2) b m =
     fst (fold (scan_step t k) (map (\<lambda>i. 2 + real i / 2) [n..<297]) (b, m))"
proof (induction d arbitrary: n b m)
  case 0
  then have "n = 297" by simp
  then show ?case by (simp add: scan_loop_exit)
next
  case (Suc d)
  then have n: "n < 297" and s: "Suc n + d = 297" by simp_all
  have le: "2 + real n / 2 \<le> 150" using n by simp
  have nx: "2 + real n / 2 + 0.5 = 2 + real (Suc n) / 2" by (simp add: field_simps)
  have up: "[n..<297] = n # [Suc n..<297]" using n by (simp add: upt_conv_Cons)
  show ?case
    unfolding scan_loop_step [OF le] nx Suc.IH [OF s] up
    by simp
qed

lemma solveRectDimension_fold:
  "0 < t \<Longrightarrow> 0 < k \<Longrightarrow>
   solveRectDimension t k = fst (fold (scan_step t k) scan_points (0, 1000))"
  using scan_loop_fold_aux [of 0 297 t k 0 1000]
  by (simp add: solveRectDimension_def scan_points_def)

lemma fold_scan_step_cases:
  "(fold (scan_step t k) xs (b, m) = (b, m) \<and> (\<forall>x\<in>set xs. m \<le> scan_diff t k x))
   \<or> (\<exists>ys r zs. xs = ys @ r # zs
         \<and> fold (scan_step t k) xs (b, m) = (r, scan_diff t k r)
         \<and> scan_diff t k r < m
         \<and> (\<forall>y\<in>set ys. scan_diff t k r < scan_diff t k y)
         \<and> (\<forall>z\<in>set zs. scan_diff t k r \<le> scan_diff t k z))"
proof (induction xs rule: rev_induct)
  case Nil
  show ?case by simp
next
  case (snoc x xs)
  let ?d = "scan_diff t k"
  let ?R = "fold (scan_step t k) xs (b, m)"
  have step: "fold (scan_step t k) (xs @ [x]) (b, m) = scan_step t k x ?R"
    by simp
  from snoc.IH show ?case
  proof (elim disjE exE conjE)
    assume same: "?R = (b, m)" and all: "\<forall>x\<in>set xs. m \<le> ?d x"
    show ?thesis
    proof (cases "?d x < m")
      case True
      then have "fold (scan_step t k) (xs @ [x]) (b, m) = (x, ?d x)"
        unfolding step same by (simp add: scan_step_def)
      moreover have "\<forall>y\<in>set xs. ?d x < ?d y"
        using all True by fastforce
      ultimately have "xs @ [x] = xs @ x # []
          \<and> fold (scan_step t k) (xs @ [x]) (b, m) = (x, ?d x)
          \<and> ?d x < m \<and> (\<forall>y\<in>set xs. ?d x < ?d y)
          \<and> (\<forall>z\<in>set []. ?d x \<le> ?d z)"
        using True by simp
      then show ?thesis by blast
    next
      case False
      then have "fold (scan_step t k) (xs @ [x]) (b, m) = (b, m)"
        unfolding step same by (simp add: scan_step_def)
      moreover have "\<forall>y\<in>set (xs @ [x]). m \<le> ?d y"
        using all False by auto
      ultimately show ?thesis by blast
    qed
  next
    fix ys r zs
    assume xs: "xs = ys @ r # zs" and res: "?R = (r, ?d r)" and lt: "?d r < m"
      and before: "\<forall>y\<in>set ys. ?d r < ?d y" and after: "\<forall>z\<in>set zs. ?d r \<le> ?d z"
    show ?thesis
    proof (cases "?d x < ?d r")
      case True
      then have "fold (scan_step t k) (xs @ [x]) (b, m) = (x, ?d x)"
        unfolding step res by (simp add: scan_step_def)
      moreover have "\<forall>y\<in>set xs. ?d x < ?d y"
        using before after True unfolding xs by fastforce
      moreover have "?d x < m" using True lt by simp
      ultimately have "xs @ [x] = xs @ x # []
          \<and> fold (scan_step t k) (xs @ [x]) (b, m) = (x, ?d x)
          \<and> ?d x < m \<and> (\<forall>y\<in>set xs. ?d x < ?d y)
          \<and> (\<forall>z\<in>set []. ?d x \<le> ?d z)"
        by simp
      then show ?thesis by blast
    next
      case False
      then have "fold (scan_step t k) (xs @ [x]) (b, m) = (r, ?d r)"
        unfolding step res by (simp add: scan_step_def)
      moreover have "xs @ [x] = ys @ r # (zs @ [x])"
        unfolding xs by simp
      moreover have "\<forall>z\<in>set (zs @ [x]). ?d r \<le> ?d z"
        using after False by auto
      ultimately show ?thesis using lt before by blast
    qed
  qed
qed

lemma fold_scan_step_none:
  assumes "\<forall>x\<in>set xs. m \<le> scan_diff t k x"
  shows "fold (scan_step t k) xs (b, m) = (b, m)"
  using fold_scan_step_cases [of t k xs b m] assms by fastforce

lemma fold_scan_step_some:
  assumes "x \<in> set xs" and "scan_diff t k x < m"
  shows "\<exists>ys r zs. xs = ys @ r # zs
         \<and> fold (scan_step t k) xs (b, m) = (r, scan_diff t k r)
         \<and> scan_diff t k r < m
         \<and> (\<forall>y\<in>set ys. scan_diff t k r < scan_diff t k y)
         \<and> (\<forall>z\<in>set zs. scan_diff t k r \<le> scan_diff t k z)"
  using fold_scan_step_cases [of t k xs b m] assms by fastforce

lemma scan_points_sorted: "sorted_wrt (<) scan_points"
  unfolding scan_points_def
  by (simp add: sorted_wrt_map sorted_wrt_upt [simplified] sorted_wrt_iff_nth_less)

lemma scan_points_mem: "x \<in> set scan_points \<longleftrightarrow> (\<exists>i<297. x = 2 + real i / 2)"
  by (auto simp add: scan_points_def)

lemma scan_points_range: "x \<in> set scan_points \<Longrightarrow> 2 \<le> x \<and> x \<le> 150"
  by (auto simp add: scan_points_def)

lemma solveRectDimension_none:
  assumes "0 < t" and "0 < k" and "\<forall>x\<in>set scan_points. 1000 \<le> scan_diff t k x"
  shows "solveRectDimension t k = 0"
  using assms by (simp add: solveRectDimension_fold fold_scan_step_none)

lemma solveRectDimension_some:
  assumes "0 < t" and "0 < k" and "x \<in> set scan_points" and "scan_diff t k x < 1000"
  shows "solveRectDimension t k \<in> set scan_points
         \<and> scan_diff t k (solveRectDimension t k) < 1000
         \<and> (\<forall>y\<in>set scan_points. scan_diff t k (solveRectDimension t k) \<le> scan_diff t k y)
         \<and> (\<forall>y\<in>set scan_points. scan_diff t k y = scan_diff t k (solveRectDimension t k)
               \<longrightarrow> solveRectDimension t k \<le> y)"
proof -
  let ?d = "scan_diff t k"
  obtain ys r zs where sp: "scan_points = ys @ r # zs"
    and res: "fold (scan_step t k) scan_points (0, 1000) = (r, ?d r)"
    and lt: "?d r < 1000"
    and before: "\<forall>y\<in>set ys. ?d r < ?d y" and after: "\<forall>z\<in>set zs. ?d r \<le> ?d z"
    using fold_scan_step_some [OF assms(3,4), of 0] by blast
  have r: "solveRectDimension t k = r"
    using assms(1,2) res by (simp add: solveRectDimension_fold)
  have mem: "r \<in> set scan_points" unfolding sp by simp
  have min: "\<forall>y\<in>set scan_points. ?d r \<le> ?d y"
    unfolding sp using before after by fastforce
  have later: "\<forall>z\<in>set zs. r < z"
    using scan_points_sorted unfolding sp by (simp add: sorted_wrt_append)
  have "\<forall>y\<in>set scan_points. ?d y = ?d r \<longrightarrow> r \<le> y"
    unfolding sp using before later by fastforce
  then show ?thesis unfolding r using mem lt min by blast
qed

lemma solveRectDimension_range_aux:
  "solveRectDimension t k = 0 \<or> solveRectDimension t k \<in> set scan_points"
proof (cases "0 < t \<and> 0 < k")
  case False
  then show ?thesis by (auto simp add: solveRectDimension_def)
next
  case True
  show ?thesis
  proof (cases "\<exists>x\<in>set scan_points. scan_diff t k x < 1000")
    case True
    then obtain x where "x \<in> set scan_points" "scan_diff t k x < 1000" by blast
    from solveRectDimension_some [OF _ _ this] \<open>0 < t \<and> 0 < k\<close> show ?thesis by blast
  next
    case False
    then have "\<forall>x\<in>set scan_points. 1000 \<le> scan_diff t k x" by fastforce
    from solveRectDimension_none [OF _ _ this] \<open>0 < t \<and> 0 < k\<close> show ?thesis by blast
  qed
qed

subsection \<open>Bounds on the equivalent diameter\<close>

lemma calcDe_nonneg: "0 \<le> calcDe k x"
  by (simp add: calcDe_def Math_pow_def)

lemma calcDe_pos: "0 < k \<Longrightarrow> 0 < x \<Longrightarrow> 0 < calcDe k x"
  by (simp add: calcDe_def Math_pow_def)

lemma calcDe_split:
  assumes "0 < k" and "0 < x"
  shows "calcDe k x = 1.30 * ((k * x) powr (3/8) * (k * x / (k + x)) powr (1/4))"
proof -
  have "(k * x) powr (5/8) = (k * x) powr (3/8) * (k * x) powr (1/4)"
    by (simp add: powr_add [symmetric])
  moreover have "(k * x / (k + x)) powr (1/4) = (k * x) powr (1/4) / (k + x) powr (1/4)"
    by (rule powr_divide)
  ultimately show ?thesis
    by (simp add: calcDe_def Math_pow_def)
qed

lemma calcDe_mono:
  assumes k: "0 < k" and x: "0 < x" and xy: "x \<le> y"
  shows "calcDe k x \<le> calcDe k y"
proof -
  have y: "0 < y" using x xy by simp
  have "k * x \<le> k * y" using k xy by simp
  then have a: "(k * x) powr (3/8) \<le> (k * y) powr (3/8)"
    using k x by (intro powr_mono2) simp_all
  have "x * (k + y) \<le> y * (k + x)"
    using k xy by (simp add: algebra_simps)
  then have "k * x / (k + x) \<le> k * y / (k + y)"
    using k x y by (simp add: field_simps)
  then have b: "(k * x / (k + x)) powr (1/4) \<le> (k * y / (k + y)) powr (1/4)"
    using k x by (intro powr_mono2) simp_all
  have "(k * x) powr (3/8) * (k * x / (k + x)) powr (1/4)
        \<le> (k * y) powr (3/8) * (k * y / (k + y)) powr (1/4)"
    using a b by (intro mult_mono) simp_all
  then show ?thesis
    unfolding calcDe_split [OF k x] calcDe_split [OF k y] by simp
qed

lemma calcDe_le:
  assumes "0 < k" and "1 \<le> k * x" and "1 \<le> k + x"
  shows "calcDe k x \<le> 1.30 * (k * x)"
proof -
  have "(k * x) powr (5/8) \<le> (k * x) powr 1"
    using assms(2) by (intro powr_mono) simp_all
  then have t: "(k * x) powr (5/8) \<le> k * x" using assms(2) by simp
  have b: "1 \<le> (k + x) powr (1/4)"
    using assms(3) by (simp add: ge_one_powr_ge_zero)
  have "(k * x) powr (5/8) / (k + x) powr (1/4) \<le> (k * x) / 1"
    using t b assms(2) by (intro frac_le) simp_all
  then show ?thesis by (simp add: calcDe_def Math_pow_def)
qed

lemma no_match_5000_12: "\<forall>x\<in>set scan_points. 1000 \<le> scan_diff 5000 12 x"
proof
  fix x assume "x \<in> set scan_points"
  then have r: "2 \<le> x" "x \<le> 150" using scan_points_range by blast+
  have "calcDe 12 x \<le> 1.30 * (12 * x)"
    using r by (intro calcDe_le) simp_all
  also have "\<dots> \<le> 2340" using r by simp
  finally show "1000 \<le> scan_diff 5000 12 x"
    by (simp add: scan_diff_def)
qed

lemma solveRect_5000_12: "solveRectDimension 5000 12 = 0"
  by (rule solveRectDimension_none [OF _ _ no_match_5000_12]) simp_all

subsection \<open>Two scan points equally close to the target\<close>

lemma scan_points_2: "2 \<in> set scan_points"
  unfolding scan_points_mem by (rule exI [of _ 0]) simp

lemma scan_points_2_5: "5/2 \<in> set scan_points"
  unfolding scan_points_mem by (rule exI [of _ 1]) simp

lemma scan_points_after_2:
  assumes "x \<in> set scan_points"
  shows "x = 2 \<or> 5/2 \<le> x"
proof -
  obtain i where "i < 297" and x: "x = 2 + real i / 2"
    using assms unfolding scan_points_mem by blast
  show ?thesis
  proof (cases i)
    case 0
    then show ?thesis using x by simp
  next
    case (Suc j)
    then show ?thesis using x by (simp add: field_simps)
  qed
qed

lemma tie_target_pos: "0 < k \<Longrightarrow> 0 < tie_target k"
  using calcDe_pos [of k 2] calcDe_pos [of k "5/2"] by (simp add: tie_target_def)

lemma tie_target_diff:
  assumes "0 < k"
  shows "scan_diff (tie_target k) k 2 = (calcDe k (5/2) - calcDe k 2) / 2"
    and "scan_diff (tie_target k) k (5/2) = (calcDe k (5/2) - calcDe k 2) / 2"
    and "x \<in> set scan_points \<Longrightarrow>
           (calcDe k (5/2) - calcDe k 2) / 2 \<le> scan_diff (tie_target k) k x"
proof -
  have m: "calcDe k 2 \<le> calcDe k (5/2)"
    using assms by (intro calcDe_mono) simp_all
  show a: "scan_diff (tie_target k) k 2 = (calcDe k (5/2) - calcDe k 2) / 2"
    using m by (simp add: scan_diff_def tie_target_def field_simps)
  show b: "scan_diff (tie_target k) k (5/2) = (calcDe k (5/2) - calcDe k 2) / 2"
    using m by (simp add: scan_diff_def tie_target_def field_simps)
  assume "x \<in> set scan_points"
  then consider "x = 2" | "5/2 \<le> x" using scan_points_after_2 by blast
  then show "(calcDe k (5/2) - calcDe k 2) / 2 \<le> scan_diff (tie_target k) k x"
  proof cases
    case 1
    then show ?thesis using a by simp
  next
    case 2
    then have "calcDe k (5/2) \<le> calcDe k x"
      using assms by (intro calcDe_mono) simp_all
    then show ?thesis using m by (simp add: scan_diff_def tie_target_def field_simps)
  qed
qed

lemma tie_target_best_match:
  assumes "0 < k"
  shows "best_match (tie_target k) k 2" and "best_match (tie_target k) k (5/2)"
proof -
  note d = tie_target_diff [OF assms]
  show "best_match (tie_target k) k 2"
    unfolding best_match_def d(1) using d(3) scan_points_2 by blast
  show "best_match (tie_target k) k (5/2)"
    unfolding best_match_def d(2) using d(3) scan_points_2_5 by blast
qed

lemma root8_power8:
  fixes c :: real
  assumes "0 \<le> c"
  shows "(c ^ 8) powr (1/8) = c"
proof -
  have "(c ^ 8) powr (1/8) = (c powr 8) powr (1/8)"
    using assms by simp
  also have "\<dots> = c powr (8 * (1/8))"
    by (simp only: powr_powr)
  also have "\<dots> = c"
    using assms by simp
  finally show ?thesis .
qed

lemma root8_power5:
  fixes a :: real
  assumes "0 \<le> a"
  shows "(a ^ 5) powr (1/8) = a powr (5/8)"
proof -
  have "(a ^ 5) powr (1/8) = (a powr 5) powr (1/8)"
    using assms by simp
  also have "\<dots> = a powr (5 * (1/8))"
    by (simp only: powr_powr)
  finally show ?thesis by simp
qed

lemma powr_5_8_ge:
  fixes a c :: real
  assumes "0 \<le> c" and "c ^ 8 \<le> a ^ 5" and "0 \<le> a"
  shows "c \<le> a powr (5/8)"
proof -
  have "(c ^ 8) powr (1/8) \<le> (a ^ 5) powr (1/8)"
    using assms by (intro powr_mono2) simp_all
  then show ?thesis
    unfolding root8_power8 [OF assms(1)] root8_power5 [OF assms(3)] .
qed

lemma powr_5_8_le:
  fixes a c :: real
  assumes "0 \<le> c" and "a ^ 5 \<le> c ^ 8" and "0 \<le> a"
  shows "a powr (5/8) \<le> c"
proof -
  have "(a ^ 5) powr (1/8) \<le> (c ^ 8) powr (1/8)"
    using assms by (intro powr_mono2) simp_all
  then show ?thesis
    unfolding root8_power8 [OF assms(1)] root8_power5 [OF assms(3)] .
qed

lemma ten16_powr_5_8: "(10 ^ 16 :: real) powr (5/8) = 10 ^ 10"
proof -
  have "(10 powr 16 :: real) powr (5/8) = 10 powr (16 * (5/8))"
    by (simp only: powr_powr)
  also have "\<dots> = 10 powr 10" by simp
  finally show ?thesis by simp
qed

lemma ten16_powr_1_4: "(10 ^ 16 :: real) powr (1/4) = 10 ^ 4"
proof -
  have "(10 powr 16 :: real) powr (1/4) = 10 powr (16 * (1/4))"
    by (simp only: powr_powr)
  also have "\<dots> = 10 powr 4" by simp
  finally show ?thesis by simp
qed

lemma calcDe_ten16_2: "calcDe (10 ^ 16) 2 \<le> 2015000"
proof -
  have t: "(10 ^ 16 * 2 :: real) powr (5/8) \<le> 10 ^ 10 * (155/100)"
  proof -
    have "(2::real) powr (5/8) \<le> 155/100"
      by (rule powr_5_8_le) (simp_all add: power_divide)
    then show ?thesis
      unfolding powr_mult ten16_powr_5_8 by simp
  qed
  have b: "(10 ^ 4 :: real) \<le> (10 ^ 16 + 2) powr (1/4)"
    by (subst ten16_powr_1_4 [symmetric], rule powr_mono2) simp_all
  have "(10 ^ 16 * 2 :: real) powr (5/8) / (10 ^ 16 + 2) powr (1/4)
        \<le> (10 ^ 10 * (155/100)) / 10 ^ 4"
    using t b by (intro frac_le) simp_all
  then show ?thesis by (simp add: calcDe_def Math_pow_def)
qed

lemma calcDe_ten16_2_5: "2300000 \<le> calcDe (10 ^ 16) (5/2)"
proof -
  have t: "10 ^ 10 * (177/100) \<le> (10 ^ 16 * (5/2) :: real) powr (5/8)"
  proof -
    have "177/100 \<le> (5/2::real) powr (5/8)"
      by (rule powr_5_8_ge) (simp_all add: power_divide)
    then show ?thesis
      unfolding powr_mult ten16_powr_5_8 by simp
  qed
  have "(10 ^ 16 + 5/2 :: real) powr (1/4) \<le> (10 ^ 16 * (10001/10000)) powr (1/4)"
    by (intro powr_mono2) simp_all
  also have "\<dots> = 10 ^ 4 * (10001/10000) powr (1/4)"
    unfolding powr_mult ten16_powr_1_4 by simp
  also have "\<dots> \<le> 10 ^ 4 * (10001/10000) powr 1"
    by (intro mult_left_mono powr_mono) simp_all
  finally have b: "(10 ^ 16 + 5/2 :: real) powr (1/4) \<le> 10001"
    by simp
  have p: "0 < (10 ^ 16 + 5/2 :: real) powr (1/4)" by simp
  have "(10 ^ 10 * (177/100)) / 10001
        \<le> (10 ^ 16 * (5/2) :: real) powr (5/8) / (10 ^ 16 + 5/2) powr (1/4)"
    using t b p by (intro frac_le) simp_all
  then show ?thesis by (simp add: calcDe_def Math_pow_def)
qed

lemma tie_ten16_no_match:
  "\<forall>x\<in>set scan_points. 1000 \<le> scan_diff (tie_target (10 ^ 16)) (10 ^ 16) x"
proof
  fix x assume "x \<in> set scan_points"
  then have "(calcDe (10 ^ 16) (5/2) - calcDe (10 ^ 16) 2) / 2
             \<le> scan_diff (tie_target (10 ^ 16)) (10 ^ 16) x"
    by (intro tie_target_diff(3)) simp_all
  then show "1000 \<le> scan_diff (tie_target (10 ^ 16)) (10 ^ 16) x"
    using calcDe_ten16_2 calcDe_ten16_2_5 by simp
qed

lemma tie_ten16_result: "solveRectDimension (tie_target (10 ^ 16)) (10 ^ 16) = 0"
  by (rule solveRectDimension_none [OF _ _ tie_ten16_no_match])
     (simp_all add: tie_target_pos)

subsection \<open>The results of the scan\<close>

lemma scan_points_150: "150 \<in> set scan_points"
  unfolding scan_points_mem by (rule exI [of _ 296]) simp

lemma solveRectDimension_exact:
  assumes "0 < k" and "x \<in> set scan_points"
  shows "solveRectDimension (calcDe k x) k \<in> set scan_points"
proof -
  have "0 < x" using scan_points_range [OF assms(2)] by simp
  then have "0 < calcDe k x" using assms(1) by (simp add: calcDe_pos)
  moreover have "scan_diff (calcDe k x) k x < 1000" by (simp add: scan_diff_def)
  ultimately show ?thesis
    using solveRectDimension_some [OF _ assms(1) assms(2)] by blast
qed

text \<open>
  C10. Whatever the arguments, \<open>solveRectDimension\<close> returns 0 or \<open>2 + 0.5 * n\<close> for a
  natural number \<open>n \<le> 296\<close>; so a result other than 0 lies between 2 and 150 and is a
  multiple of 0.5.
\<close>

theorem solveRectDimension_range:
  "(solveRectDimension t k = 0
      \<or> (\<exists>n. n \<le> 296 \<and> solveRectDimension t k = 2 + 0.5 * real n))
   \<and> (solveRectDimension t k \<noteq> 0 \<longrightarrow>
        2 \<le> solveRectDimension t k \<and> solveRectDimension t k \<le> 150
        \<and> (\<exists>m. solveRectDimension t k = 0.5 * real (m::nat)))"
proof -
  consider "solveRectDimension t k = 0" | "solveRectDimension t k \<in> set scan_points"
    using solveRectDimension_range_aux by blast
  then show ?thesis
  proof cases
    case 1
    then show ?thesis by simp
  next
    case 2
    then obtain i where i: "i < 297" and r: "solveRectDimension t k = 2 + real i / 2"
      unfolding scan_points_mem by blast
    have "i \<le> 296 \<and> solveRectDimension t k = 2 + 0.5 * real i"
      using i r by simp
    moreover have "solveRectDimension t k = 0.5 * real (i + 4)"
      using r by simp
    moreover have "2 \<le> solveRectDimension t k \<and> solveRectDimension t k \<le> 150"
      using scan_points_range [OF 2] .
    ultimately show ?thesis by blast
  qed
qed

theorem solveRectDimension_range_witness:
  "solveRectDimension (calcDe 12 12) 12 \<noteq> 0
   \<and> 2 \<le> solveRectDimension (calcDe 12 12) 12
   \<and> solveRectDimension (calcDe 12 12) 12 \<le> 150"
proof -
  have "(12::real) = 2 + real 20 / 2" by simp
  then have "12 \<in> set scan_points"
    unfolding scan_points_mem by (intro exI [of _ 20]) simp
  then have "solveRectDimension (calcDe 12 12) 12 \<in> set scan_points"
    by (intro solveRectDimension_exact) simp_all
  then have "solveRectDimension (calcDe 12 12) 12 \<noteq> 0"
    using scan_points_range by fastforce
  then show ?thesis
    using solveRectDimension_range [of "calcDe 12 12" 12] by blast
qed

lemma calcDe_12_le: 
  assumes "x \<in> set scan_points"
  shows "calcDe 12 x \<le> calcDe 12 150" and "calcDe 12 150 \<le> 2340"
proof -
  have r: "2 \<le> x" "x \<le> 150" using scan_points_range [OF assms] by blast+
  then show "calcDe 12 x \<le> calcDe 12 150"
    by (intro calcDe_mono) simp_all
  have "calcDe 12 150 \<le> 1.30 * (12 * 150)"
    by (intro calcDe_le) simp_all
  then show "calcDe 12 150 \<le> 2340" by simp
qed

lemma best_match_5000_12_150: "best_match 5000 12 150"
  unfolding best_match_def
proof (intro conjI ballI)
  show "150 \<in> set scan_points" by (rule scan_points_150)
next
  fix y assume "y \<in> set scan_points"
  from calcDe_12_le [OF this]
  show "scan_diff 5000 12 150 \<le> scan_diff 5000 12 y"
    by (simp add: scan_diff_def)
qed

text \<open>
  C4 says that for every positive target diameter and known side the result is the scan
  point closest to the target. The scan starts from \<open>minDiff = 1000\<close> and \<open>bestSide = 0\<close>:
  for target 5000 and known side 12 every scan point is further than 1000 from the target,
  no candidate is ever accepted, and the result is 0, which is no scan point; the closest
  scan point is 150.
\<close>

theorem best_match_fails_large_target:
  "solveRectDimension 5000 12 = 0
   \<and> \<not> best_match 5000 12 (solveRectDimension 5000 12)
   \<and> best_match 5000 12 150"
proof -
  have "\<not> best_match 5000 12 0"
    using scan_points_range [of 0] by (auto simp add: best_match_def)
  then show ?thesis
    using solveRect_5000_12 best_match_5000_12_150 by simp
qed

theorem best_match_fails_large_target_witness:
  "solveRectDimension 5000 12 \<noteq> 150 \<and> best_match 5000 12 150"
  using best_match_fails_large_target by simp

text \<open>
  What the scan does return: when some scan point is closer than 1000 to the target, the
  result is a closest scan point, and the smallest of them; when none is, the result is 0.
\<close>

theorem solveRectDimension_best_match:
  assumes "0 < t" and "0 < k"
  shows "((\<exists>x\<in>set scan_points. scan_diff t k x < 1000) \<longrightarrow>
            best_match t k (solveRectDimension t k)
            \<and> (\<forall>y. best_match t k y \<longrightarrow> solveRectDimension t k \<le> y))
         \<and> ((\<forall>x\<in>set scan_points. 1000 \<le> scan_diff t k x) \<longrightarrow>
            solveRectDimension t k = 0)"
proof (intro conjI impI allI)
  assume "\<exists>x\<in>set scan_points. scan_diff t k x < 1000"
  then obtain x where x: "x \<in> set scan_points" "scan_diff t k x < 1000" by blast
  note s = solveRectDimension_some [OF assms x]
  show bm: "best_match t k (solveRectDimension t k)"
    using s by (simp add: best_match_def)
  fix y assume y: "best_match t k y"
  then have "scan_diff t k y \<le> scan_diff t k (solveRectDimension t k)"
    and "scan_diff t k (solveRectDimension t k) \<le> scan_diff t k y"
    using bm by (simp_all add: best_match_def)
  then have "scan_diff t k y = scan_diff t k (solveRectDimension t k)" by simp
  then show "solveRectDimension t k \<le> y"
    using s y by (simp add: best_match_def)
next
  assume "\<forall>x\<in>set scan_points. 1000 \<le> scan_diff t k x"
  then show "solveRectDimension t k = 0"
    by (rule solveRectDimension_none [OF assms])
qed

theorem solveRectDimension_best_match_witness:
  "best_match (calcDe 12 12) 12 (solveRectDimension (calcDe 12 12) 12)
   \<and> solveRectDimension 5000 12 = 0"
proof -
  have m: "12 \<in> set scan_points"
    unfolding scan_points_mem by (intro exI [of _ 20]) simp
  have "scan_diff (calcDe 12 12) 12 12 < 1000" by (simp add: scan_diff_def)
  then have e: "\<exists>x\<in>set scan_points. scan_diff (calcDe 12 12) 12 x < 1000"
    using m by blast
  have p: "0 < calcDe 12 12" by (simp add: calcDe_pos)
  show ?thesis
    using solveRectDimension_best_match [OF p, of 12] e
      solveRectDimension_best_match [of 5000 12] no_match_5000_12
    by simp
qed





text \<open>
  In exact arithmetic two scan points tie when the target lies halfway between their
  equivalent diameters; with known side \<open>10\<^sup>1\<^sup>6\<close> the points 2 and 2.5 tie as closest,
  further than 1000 from the target, and the result is again 0.
\<close>

lemma tie_break_beyond_sentinel_real:
  "(0::real) < tie_target (10 ^ 16) \<and> (0::real) < 10 ^ 16
   \<and> best_match (tie_target (10 ^ 16)) (10 ^ 16) 2
   \<and> best_match (tie_target (10 ^ 16)) (10 ^ 16) (5/2)
   \<and> scan_diff (tie_target (10 ^ 16)) (10 ^ 16) 2
       = scan_diff (tie_target (10 ^ 16)) (10 ^ 16) (5/2)
   \<and> solveRectDimension (tie_target (10 ^ 16)) (10 ^ 16) = 0"
proof -
  have k: "(0::real) < 10 ^ 16" by simp
  show ?thesis
    using tie_target_pos [OF k] tie_target_best_match [OF k] tie_target_diff(1,2) [OF k]
      tie_ten16_result
    by simp
qed

text \<open>
  Below the initial bound the tie-break of the scan is first-wins: a candidate replaces the
  current best only when its difference is strictly smaller than the smallest so far, so
  when two scan points are equally close and closest to the target, and closer than 1000,
  the result is a closest scan point not above the smaller of the two, and no closest scan
  point is below it.
\<close>

lemma tie_break_first_wins:
  assumes "0 < t" and "0 < k"
    and "best_match t k x1" and "best_match t k x2" and "x1 < x2"
    and "scan_diff t k x1 < 1000"
  shows "scan_loop t k x b m =
           (if x \<le> 150 then
              (if scan_diff t k x < m
               then scan_loop t k (x + 0.5) x (scan_diff t k x)
               else scan_loop t k (x + 0.5) b m)
            else b)
         \<and> best_match t k (solveRectDimension t k)
         \<and> solveRectDimension t k \<le> x1
         \<and> solveRectDimension t k \<noteq> x2
         \<and> (\<forall>y. best_match t k y \<longrightarrow> solveRectDimension t k \<le> y)"
proof -
  let ?r = "solveRectDimension t k"
  have x1: "x1 \<in> set scan_points" using assms(3) by (simp add: best_match_def)
  note s = solveRectDimension_some [OF assms(1,2) x1 assms(6)]
  have bm: "best_match t k ?r" using s by (simp add: best_match_def)
  have least: "best_match t k y \<Longrightarrow> ?r \<le> y" for y
  proof -
    assume y: "best_match t k y"
    then have "scan_diff t k y \<le> scan_diff t k ?r" "scan_diff t k ?r \<le> scan_diff t k y"
      using bm by (simp_all add: best_match_def)
    then have "scan_diff t k y = scan_diff t k ?r" by simp
    then show "?r \<le> y" using s y by (simp add: best_match_def)
  qed
  have "?r \<le> x1" using least [OF assms(3)] .
  then have "?r \<noteq> x2" using assms(5) by simp
  with bm \<open>?r \<le> x1\<close> least scan_loop_unfold [of t k x b m] show ?thesis by blast
qed

lemma tie_break_first_wins_instance:
  "solveRectDimension (tie_target 1) 1 = 2
   \<and> best_match (tie_target 1) 1 2 \<and> best_match (tie_target 1) 1 (5/2)
   \<and> scan_diff (tie_target 1) 1 2 < 1000"
proof -
  have k: "(0::real) < 1" by simp
  have "calcDe 1 (5/2) \<le> 1.30 * (1 * (5/2))"
    by (intro calcDe_le) simp_all
  moreover have "0 \<le> calcDe 1 2" by (rule calcDe_nonneg)
  ultimately have lt: "scan_diff (tie_target 1) 1 2 < 1000"
    unfolding tie_target_diff(1) [OF k] by simp
  note bm = tie_target_best_match [OF k]
  have "solveRectDimension (tie_target 1) 1 \<le> 2"
    and "best_match (tie_target 1) 1 (solveRectDimension (tie_target 1) 1)"
    using tie_break_first_wins [OF tie_target_pos [OF k] k bm _ lt] by simp_all
  then have "solveRectDimension (tie_target 1) 1 = 2"
    using scan_points_range [of "solveRectDimension (tie_target 1) 1"]
    by (simp add: best_match_def)
  then show ?thesis using bm lt by simp
qed

section \<open>Scenario A: 1000 CFM at 0.1 in.wg per 100 ft\<close>

subsection \<open>Bounds on pi from the Taylor expansion of the sine at pi / 6\<close>

lemma sin_poly7:
  fixes x :: real
  shows "(\<Sum>m<8. sin_coeff m * x ^ m) = x - x ^ 3 / 6 + x ^ 5 / 120 - x ^ 7 / 5040"
  by (simp add: sin_coeff_def lessThan_nat_numeral lessThan_Suc fact_numeral)

lemma sin_taylor7:
  fixes x :: real
  assumes "0 \<le> x"
  shows "\<bar>sin x - (x - x ^ 3 / 6 + x ^ 5 / 120 - x ^ 7 / 5040)\<bar> \<le> x ^ 8 / 40320"
proof -
  have f: "inverse (fact 8 :: real) = 1 / 40320"
    by (simp add: fact_numeral)
  have "\<bar>sin x - (\<Sum>m<8. sin_coeff m * x ^ m)\<bar> \<le> inverse (fact 8) * \<bar>x\<bar> ^ 8"
    by (rule Maclaurin_sin_bound)
  then show ?thesis
    unfolding sin_poly7 f by simp
qed

lemma pi_gt_3141: "3141 / 1000 < pi"
proof -
  define a :: real where "a = 1047 / 2000"
  have a0: "0 \<le> a" and a1: "a \<le> 1" by (simp_all add: a_def)
  have "sin a \<le> (a - a ^ 3 / 6 + a ^ 5 / 120 - a ^ 7 / 5040) + a ^ 8 / 40320"
    using sin_taylor7 [OF a0] by linarith
  also have "\<dots> < 1 / 2"
    by (simp add: a_def power_divide)
  finally have "sin a < sin (pi / 6)" by (simp add: sin_30)
  moreover have "a \<le> pi / 2" using a1 pi_ge_two by linarith
  moreover have "- (pi / 2) \<le> a" using a0 pi_ge_two by linarith
  moreover have "- (pi / 2) \<le> pi / 6" "pi / 6 \<le> pi / 2" using pi_ge_two by linarith+
  ultimately have "a < pi / 6"
    using sin_mono_less_eq [of a "pi / 6"] by blast
  then show ?thesis by (simp add: a_def)
qed

lemma pi_lt_3142: "pi < 3142 / 1000"
proof -
  define b :: real where "b = 1571 / 3000"
  have b0: "0 \<le> b" and b1: "b \<le> 1" by (simp_all add: b_def)
  have "1 / 2 < (b - b ^ 3 / 6 + b ^ 5 / 120 - b ^ 7 / 5040) - b ^ 8 / 40320"
    by (simp add: b_def power_divide)
  also have "\<dots> \<le> sin b"
    using sin_taylor7 [OF b0] by linarith
  finally have "sin (pi / 6) < sin b" by (simp add: sin_30)
  moreover have "b \<le> pi / 2" using b1 pi_ge_two by linarith
  moreover have "- (pi / 2) \<le> b" using b0 pi_ge_two by linarith
  moreover have "- (pi / 2) \<le> pi / 6" "pi / 6 \<le> pi / 2" using pi_ge_two by linarith+
  ultimately have "pi / 6 < b"
    using sin_mono_less_eq [of "pi / 6" b] by blast
  then show ?thesis by (simp add: b_def)
qed

subsection \<open>Bounds on powers by repeated multiplication\<close>

lemma power_le_mult:
  fixes x :: real
  assumes "0 \<le> x" and "x ^ n \<le> p" and "x ^ m \<le> q" and "p * q \<le> r" and "n + m = k"
  shows "x ^ k \<le> r"
proof -
  have "0 \<le> x ^ n" "0 \<le> x ^ m" using assms(1) by simp_all
  then have "x ^ n * x ^ m \<le> p * q"
    using assms(2,3) by (intro mult_mono) simp_all
  then show ?thesis using assms(4) unfolding assms(5) [symmetric] by (simp add: power_add)
qed

lemma power_ge_mult:
  fixes x :: real
  assumes "0 \<le> p" and "0 \<le> q" and "p \<le> x ^ n" and "q \<le> x ^ m" and "r \<le> p * q"
    and "n + m = k"
  shows "r \<le> x ^ k"
proof -
  have "p * q \<le> x ^ n * x ^ m"
    using assms(1-4) by (intro mult_mono) simp_all
  then show ?thesis using assms(5) unfolding assms(6) [symmetric] by (simp add: power_add)
qed

lemma friction_factor_power_lower:
  fixes w :: real
  assumes w_def: "w = 109136 / 100000"
  shows "791410138011 / 10000000000 \<le> w ^ 50"
proof -
  have wl1: "109136000000 / 100000000000 \<le> w ^ 1"
    by (simp add: w_def)
  have wl2: "119106664960 / 100000000000 \<le> w ^ 2"
    using power_ge_mult [where r = "119106664960 / 100000000000" and k = 2, OF _ _ wl1 wl1] by simp
  have wl4: "141863976378 / 100000000000 \<le> w ^ 4"
    using power_ge_mult [where r = "141863976378 / 100000000000" and k = 4, OF _ _ wl2 wl2] by simp
  have wl8: "201253877937 / 100000000000 \<le> w ^ 8"
    using power_ge_mult [where r = "201253877937 / 100000000000" and k = 8, OF _ _ wl4 wl4] by simp
  have wl16: "405031233846 / 100000000000 \<le> w ^ 16"
    using power_ge_mult [where r = "405031233846 / 100000000000" and k = 16, OF _ _ wl8 wl8] by simp
  have wl32: "164050300390 / 10000000000 \<le> w ^ 32"
    using power_ge_mult [where r = "164050300390 / 10000000000" and k = 32, OF _ _ wl16 wl16] by simp
  have wl48: "664454955797 / 10000000000 \<le> w ^ 48"
    using power_ge_mult [where r = "664454955797 / 10000000000" and k = 48, OF _ _ wl32 wl16] by simp
  have wl50: "791410138011 / 10000000000 \<le> w ^ 50"
    using power_ge_mult [where r = "791410138011 / 10000000000" and k = 50, OF _ _ wl48 wl2] by simp
  show ?thesis by (rule wl50)
qed

lemma friction_factor_power_upper:
  fixes w :: real
  assumes w_def: "w = 109136 / 100000"
  shows "w ^ 50 \<le> 791410138119 / 10000000000"
proof -
  have w0: "0 \<le> w" by (simp add: w_def)
  have wu1: "w ^ 1 \<le> 109136000000 / 100000000000"
    by (simp add: w_def)
  have wu2: "w ^ 2 \<le> 119106664960 / 100000000000"
    using power_le_mult [where r = "119106664960 / 100000000000" and k = 2, OF w0 wu1 wu1] by simp
  have wu4: "w ^ 4 \<le> 141863976379 / 100000000000"
    using power_le_mult [where r = "141863976379 / 100000000000" and k = 4, OF w0 wu2 wu2] by simp
  have wu8: "w ^ 8 \<le> 201253877941 / 100000000000"
    using power_le_mult [where r = "201253877941 / 100000000000" and k = 8, OF w0 wu4 wu4] by simp
  have wu16: "w ^ 16 \<le> 405031233863 / 100000000000"
    using power_le_mult [where r = "405031233863 / 100000000000" and k = 16, OF w0 wu8 wu8] by simp
  have wu32: "w ^ 32 \<le> 164050300405 / 10000000000"
    using power_le_mult [where r = "164050300405 / 10000000000" and k = 32, OF w0 wu16 wu16] by simp
  have wu48: "w ^ 48 \<le> 664454955887 / 10000000000"
    using power_le_mult [where r = "664454955887 / 10000000000" and k = 48, OF w0 wu32 wu16] by simp
  have wu50: "w ^ 50 \<le> 791410138119 / 10000000000"
    using power_le_mult [where r = "791410138119 / 10000000000" and k = 50, OF w0 wu48 wu2] by simp
  show ?thesis by (rule wu50)
qed

lemma low_power_bound:
  fixes u :: real
  assumes u_def: "u = 13898 / 10000"
  shows "u ^ 251 \<le> 760377300352000000000000000000000000"
proof -
  have u0: "0 \<le> u" by (simp add: u_def)
  have u1: "u ^ 1 \<le> 138980000000 / 100000000000"
    by (simp add: u_def)
  have u2: "u ^ 2 \<le> 193154404000 / 100000000000"
    using power_le_mult [where r = "193154404000 / 100000000000" and k = 2, OF u0 u1 u1] by simp
  have u4: "u ^ 4 \<le> 373086237846 / 100000000000"
    using power_le_mult [where r = "373086237846 / 100000000000" and k = 4, OF u0 u2 u2] by simp
  have u8: "u ^ 8 \<le> 139193340871 / 10000000000"
    using power_le_mult [where r = "139193340871 / 10000000000" and k = 8, OF u0 u4 u4] by simp
  have u16: "u ^ 16 \<le> 193747861429 / 1000000000"
    using power_le_mult [where r = "193747861429 / 1000000000" and k = 16, OF u0 u8 u8] by simp
  have u32: "u ^ 32 \<le> 375382338084 / 10000000"
    using power_le_mult [where r = "375382338084 / 10000000" and k = 32, OF u0 u16 u16] by simp
  have u64: "u ^ 64 \<le> 140911899746 / 100"
    using power_le_mult [where r = "140911899746 / 100" and k = 64, OF u0 u32 u32] by simp
  have u128: "u ^ 128 \<le> 1985616349010000000"
    using power_le_mult [where r = "1985616349010000000" and k = 128, OF u0 u64 u64] by simp
  have u192: "u ^ 192 \<le> 2797969719060000000000000000"
    using power_le_mult [where r = "2797969719060000000000000000" and k = 192, OF u0 u128 u64] by simp
  have u224: "u ^ 224 \<le> 105030841503000000000000000000000"
    using power_le_mult [where r = "105030841503000000000000000000000" and k = 224, OF u0 u192 u32] by simp
  have u240: "u ^ 240 \<le> 20349500925300000000000000000000000"
    using power_le_mult [where r = "20349500925300000000000000000000000" and k = 240, OF u0 u224 u16] by simp
  have u248: "u ^ 248 \<le> 283251501886000000000000000000000000"
    using power_le_mult [where r = "283251501886000000000000000000000000" and k = 248, OF u0 u240 u8] by simp
  have u250: "u ^ 250 \<le> 547112750289000000000000000000000000"
    using power_le_mult [where r = "547112750289000000000000000000000000" and k = 250, OF u0 u248 u2] by simp
  have u251: "u ^ 251 \<le> 760377300352000000000000000000000000"
    using power_le_mult [where r = "760377300352000000000000000000000000" and k = 251, OF u0 u250 u1] by simp
  show ?thesis by (rule u251)
qed

lemma high_power_bound:
  fixes v :: real
  assumes v_def: "v = 13902 / 10000"
  shows "817331670170000000000000000000000000 \<le> v ^ 251"
proof -
  have v1: "139020000000 / 100000000000 \<le> v ^ 1"
    by (simp add: v_def)
  have v2: "193265604000 / 100000000000 \<le> v ^ 2"
    using power_ge_mult [where r = "193265604000 / 100000000000" and k = 2, OF _ _ v1 v1] by simp
  have v4: "373515936894 / 100000000000 \<le> v ^ 4"
    using power_ge_mult [where r = "373515936894 / 100000000000" and k = 4, OF _ _ v2 v2] by simp
  have v8: "139514155113 / 10000000000 \<le> v ^ 8"
    using power_ge_mult [where r = "139514155113 / 10000000000" and k = 8, OF _ _ v4 v4] by simp
  have v16: "194641994768 / 1000000000 \<le> v ^ 16"
    using power_ge_mult [where r = "194641994768 / 1000000000" and k = 16, OF _ _ v8 v8] by simp
  have v32: "378855061272 / 10000000 \<le> v ^ 32"
    using power_ge_mult [where r = "378855061272 / 10000000" and k = 32, OF _ _ v16 v16] by simp
  have v64: "143531157451 / 100 \<le> v ^ 64"
    using power_ge_mult [where r = "143531157451 / 100" and k = 64, OF _ _ v32 v32] by simp
  have v128: "2060119315920000000 \<le> v ^ 128"
    using power_ge_mult [where r = "2060119315920000000" and k = 128, OF _ _ v64 v64] by simp
  have v192: "2956913099010000000000000000 \<le> v ^ 192"
    using power_ge_mult [where r = "2956913099010000000000000000" and k = 192, OF _ _ v128 v64] by simp
  have v224: "112024149330000000000000000000000 \<le> v ^ 224"
    using power_ge_mult [where r = "112024149330000000000000000000000" and k = 224, OF _ _ v192 v32] by simp
  have v240: "21804603887700000000000000000000000 \<le> v ^ 240"
    using power_ge_mult [where r = "21804603887700000000000000000000000" and k = 240, OF _ _ v224 v16] by simp
  have v248: "304205088896000000000000000000000000 \<le> v ^ 248"
    using power_ge_mult [where r = "304205088896000000000000000000000000" and k = 248, OF _ _ v240 v8] by simp
  have v250: "587923802453000000000000000000000000 \<le> v ^ 250"
    using power_ge_mult [where r = "587923802453000000000000000000000000" and k = 250, OF _ _ v248 v2] by simp
  have v251: "817331670170000000000000000000000000 \<le> v ^ 251"
    using power_ge_mult [where r = "817331670170000000000000000000000000" and k = 251, OF _ _ v250 v1] by simp
  show ?thesis by (rule v251)
qed

subsection \<open>The solved diameter and the derived velocity\<close>

lemma root251_power251:
  fixes c :: real
  assumes "0 \<le> c"
  shows "(c ^ 251) powr (1/251) = c"
proof -
  have "(c ^ 251) powr (1/251) = (c powr 251) powr (1/251)"
    using assms by simp
  also have "\<dots> = c powr (251 * (1/251))"
    by (simp only: powr_powr)
  also have "\<dots> = c"
    using assms by simp
  finally show ?thesis .
qed

lemma root251_power50:
  fixes a :: real
  assumes "0 \<le> a"
  shows "(a ^ 50) powr (1/251) = a powr (50/251)"
proof -
  have "(a ^ 50) powr (1/251) = (a powr 50) powr (1/251)"
    using assms by simp
  also have "\<dots> = a powr (50 * (1/251))"
    by (simp only: powr_powr)
  finally show ?thesis by simp
qed

lemma scenarioA_diameter_root:
  fixes w :: real
  assumes w_def: "w = 109136 / 100000"
  shows "solveDiaByFriction 1000 0.1 = (w ^ 50 * 10 ^ 285) powr (1/251)"
proof -
  define X :: real where "X = 1000 powr (19/10)"
  have X0: "0 < X" by (simp add: X_def)
  have w0: "0 < w" by (simp add: w_def)
  have b: "(0.109136 * X) / 0.1 = w * X"
    by (simp add: w_def)
  have ex: "(1 / 5.02 :: real) = 50 / 251"
    by simp
  have "solveDiaByFriction 1000 0.1 = ((0.109136 * X) / 0.1) powr (1 / 5.02)"
    by (simp add: solveDiaByFriction_def Math_pow_def X_def)
  also have "\<dots> = (w * X) powr (50/251)"
    by (simp only: b ex)
  finally have D: "solveDiaByFriction 1000 0.1 = (w * X) powr (50/251)" .
  have "X ^ 50 = 1000 powr (real 50 * (19/10))"
    unfolding X_def by (rule powr_power) simp
  also have "\<dots> = 1000 powr 95" by simp
  also have "\<dots> = 1000 ^ 95" by simp
  also have "\<dots> = (10 ^ 3) ^ 95" by simp
  also have "\<dots> = (10::real) ^ 285" by (simp only: power_mult [symmetric]) simp
  finally have "(w * X) ^ 50 = w ^ 50 * 10 ^ 285"
    by (simp add: power_mult_distrib)
  moreover have "((w * X) ^ 50) powr (1/251) = (w * X) powr (50/251)"
    using w0 X0 by (intro root251_power50) simp
  ultimately show ?thesis unfolding D by simp
qed

lemma scenarioA_diameter_bounds:
  "13898 / 1000 < solveDiaByFriction 1000 0.1 \<and> solveDiaByFriction 1000 0.1 < 13902 / 1000"
proof -
  define w :: real where "w = 109136 / 100000"
  define u :: real where "u = 13898 / 10000"
  define v :: real where "v = 13902 / 10000"
  define C :: real where "C = w ^ 50 * 10 ^ 285"
  have D: "solveDiaByFriction 1000 0.1 = C powr (1/251)"
    unfolding C_def by (rule scenarioA_diameter_root [OF w_def])
  have u0: "0 \<le> u" and v0: "0 \<le> v" by (simp_all add: u_def v_def)
  have wl: "(791410138011 / 10000000000) \<le> w ^ 50"
    by (rule friction_factor_power_lower [OF w_def])
  have wu: "w ^ 50 \<le> (791410138119 / 10000000000)"
    by (rule friction_factor_power_upper [OF w_def])
  have ub: "u ^ 251 \<le> 760377300352000000000000000000000000"
    by (rule low_power_bound [OF u_def])
  have vb: "817331670170000000000000000000000000 \<le> v ^ 251"
    by (rule high_power_bound [OF v_def])
  have w0: "0 < w" by (simp add: w_def)
  have C0: "0 < C" using w0 by (simp add: C_def)
  have "(10 * u) ^ 251 = 10 ^ 251 * u ^ 251"
    by (rule power_mult_distrib)
  also have "\<dots> \<le> 10 ^ 251 * 760377300352000000000000000000000000"
    using ub by (intro mult_left_mono) simp_all
  also have "\<dots> < (791410138011 / 10000000000) * 10 ^ 285"
    by simp
  also have "\<dots> \<le> C"
    unfolding C_def using wl by (intro mult_right_mono) simp_all
  finally have "((10 * u) ^ 251) powr (1/251) < C powr (1/251)"
    using u0 by (intro powr_less_mono2) simp_all
  moreover have "((10 * u) ^ 251) powr (1/251) = 10 * u"
    using u0 by (intro root251_power251) simp
  ultimately have low: "10 * u < C powr (1/251)"
    by (simp only:)
  have "C \<le> (791410138119 / 10000000000) * 10 ^ 285"
    unfolding C_def using wu by (intro mult_right_mono) simp_all
  also have "\<dots> < 10 ^ 251 * 817331670170000000000000000000000000"
    by simp
  also have "\<dots> \<le> 10 ^ 251 * v ^ 251"
    using vb by (intro mult_left_mono) simp_all
  also have "\<dots> = (10 * v) ^ 251"
    by (rule power_mult_distrib [symmetric])
  finally have "C powr (1/251) < ((10 * v) ^ 251) powr (1/251)"
    using C0 by (intro powr_less_mono2) simp_all
  moreover have "((10 * v) ^ 251) powr (1/251) = 10 * v"
    using v0 by (intro root251_power251) simp
  ultimately have high: "C powr (1/251) < 10 * v"
    by (simp only:)
  show ?thesis
    unfolding D using low high by (simp add: u_def v_def)
qed

lemma scenarioA_velocity_form:
  assumes "0 < d"
  shows "calcVelocity 1000 d = 576000 / (pi * d ^ 2)"
  using assms by (simp add: calcVelocity_def Math_pow_def power_divide)

lemma scenarioA_velocity_bounds:
  "9485 / 10 < calcVelocity 1000 (solveDiaByFriction 1000 0.1)
   \<and> calcVelocity 1000 (solveDiaByFriction 1000 0.1) < 9495 / 10"
proof -
  define d where "d = solveDiaByFriction 1000 0.1"
  have lo: "13898 / 1000 < d" and hi: "d < 13902 / 1000"
    using scenarioA_diameter_bounds by (simp_all add: d_def)
  have d0: "0 < d" using lo by simp
  have "d ^ 2 < (13902 / 1000) ^ 2"
    using hi d0 by (intro power_strict_mono) simp_all
  then have "pi * d ^ 2 < (3142 / 1000) * (13902 / 1000) ^ 2"
    using pi_lt_3142 d0 by (intro mult_strict_mono) simp_all
  also have "\<dots> < 576000 / (9485 / 10)"
    by (simp add: power2_eq_square)
  finally have a: "pi * d ^ 2 < 576000 / (9485 / 10)" .
  have "(13898 / 1000) ^ 2 < d ^ 2"
    using lo by (intro power_strict_mono) simp_all
  then have "(3141 / 1000) * (13898 / 1000) ^ 2 < pi * d ^ 2"
    using pi_gt_3141 by (intro mult_strict_mono) simp_all
  moreover have "576000 / (9495 / 10) < (3141 / 1000) * (13898 / 1000 :: real) ^ 2"
    by (simp add: power2_eq_square)
  ultimately have b: "576000 / (9495 / 10) < pi * d ^ 2" by simp
  have p: "0 < pi * d ^ 2" using d0 by simp
  have "9485 / 10 < 576000 / (pi * d ^ 2)"
    using a p by (simp add: field_simps)
  moreover have "576000 / (pi * d ^ 2) < 9495 / 10"
    using b p by (simp add: field_simps)
  ultimately show ?thesis
    unfolding d_def [symmetric] scenarioA_velocity_form [OF d0] by simp
qed

text \<open>
  C9 gives the derived velocity of scenario A as approximately 951 FPM. The velocity that
  \<open>calcVelocity\<close> returns at the solved diameter is below 949.5, more than 1.5 away
  from 951.
\<close>

theorem scenarioA_velocity_counterexample:
  "\<not> \<bar>calcVelocity 1000 (solveDiaByFriction 1000 0.1) - 951\<bar> \<le> 3 / 2"
  using scenarioA_velocity_bounds by linarith

text \<open>
  C9 as amended. For airflow 1000 CFM and friction target 0.1 in friction mode (the initial
  state of the component) the solved diameter is 13.9 inches within 0.005 and the derived
  velocity is 949 FPM within 0.5.
\<close>

theorem scenarioA:
  "\<bar>solveDiaByFriction 1000 0.1 - 13.9\<bar> < 0.005
   \<and> \<bar>calcVelocity 1000 (solveDiaByFriction 1000 0.1) - 949\<bar> < 0.5
   \<and> resultDia (calculation_effect initial_state) = solveDiaByFriction 1000 0.1
   \<and> resultVelocity (calculation_effect initial_state)
       = calcVelocity 1000 (solveDiaByFriction 1000 0.1)"
proof -
  have "resultDia (calculation_effect initial_state) = solveDiaByFriction 1000 0.1"
    by (simp add: calculation_effect_resultDia effect_diameter_def initial_state_def Let_def)
  moreover have "resultVelocity (calculation_effect initial_state)
       = calcVelocity 1000 (solveDiaByFriction 1000 0.1)"
    by (simp add: calculation_effect_def effect_diameter_def initial_state_def Let_def)
  moreover have "\<bar>solveDiaByFriction 1000 0.1 - 13.9\<bar> < 0.005"
  proof -
    have "\<bar>solveDiaByFriction 1000 0.1 - 139 / 10\<bar> < 5 / 1000"
      using scenarioA_diameter_bounds by linarith
    then show ?thesis by simp
  qed
  moreover have "\<bar>calcVelocity 1000 (solveDiaByFriction 1000 0.1) - 949\<bar> < 0.5"
    using scenarioA_velocity_bounds by linarith
  ultimately show ?thesis by blast
qed

end
